theory Spec2Isabelle
  imports Complex_Main
begin

section \<open>The Schelling segregation model: data\<close>

text \<open>
  The notebook keeps the grid in a two-dimensional numpy array created by
  \<^verbatim>\<open>np.zeros((size, size))\<close> and stores the codes 0 (empty), 1 (type A) and 2 (type B)
  in it. An array is its shape together with the value at every index pair. The codes
  are kept as integers: the source compares them with \<^verbatim>\<open>== 0\<close>, \<^verbatim>\<open>> 0\<close> and
  \<^verbatim>\<open>== agent\<close>, and the three codes are represented exactly by the array's floats.
\<close>

datatype error = IndexError | ValueError

record grid =
  shape0 :: nat
  shape1 :: nat
  cells :: "nat \<times> nat \<Rightarrow> int"

text \<open>\<^verbatim>\<open>np.zeros((n, m))\<close>.\<close>

definition zeros :: "nat \<Rightarrow> nat \<Rightarrow> grid" where
  "zeros n m = \<lparr>shape0 = n, shape1 = m, cells = (\<lambda>_. 0)\<rparr>"

text \<open>
  \<^verbatim>\<open>grid[x, y]\<close> and \<^verbatim>\<open>grid[x, y] = v\<close>. Every index the notebook computes is
  non-negative (a loop counter, a draw of \<^verbatim>\<open>randint\<close>, a remainder by a positive
  shape), so indices are naturals; an index beyond the shape raises IndexError.
\<close>

definition getitem :: "grid \<Rightarrow> nat \<Rightarrow> nat \<Rightarrow> error + int" where
  "getitem g x y =
     (if x < shape0 g \<and> y < shape1 g then Inr (cells g (x, y)) else Inl IndexError)"

definition put :: "grid \<Rightarrow> nat \<times> nat \<Rightarrow> int \<Rightarrow> grid" where
  "put g p v = g\<lparr>cells := (cells g)(p := v)\<rparr>"

definition setitem :: "grid \<Rightarrow> nat \<Rightarrow> nat \<Rightarrow> int \<Rightarrow> error + grid" where
  "setitem g x y v =
     (if x < shape0 g \<and> y < shape1 g then Inr (put g (x, y) v) else Inl IndexError)"

subsection \<open>The random source\<close>

text \<open>
  numpy's global random state is passed explicitly: an infinite sequence of raw draws
  and the position of the next one. \<^verbatim>\<open>np.random.rand()\<close> returns a float of the
  half-open unit interval, a 53-bit integer divided by \<open>2 ^ 53\<close>;
  \<^verbatim>\<open>np.random.randint(high)\<close> returns an integer of \<open>{0..<high}\<close> and raises
  ValueError when \<open>high\<close> is not positive; \<^verbatim>\<open>np.random.randint(high, size=2)\<close>
  draws two of them. How numpy derives a result from the state of its generator is not
  modelled: a raw draw stands for what the generator yields, and every result within
  the range comes from some raw draw. The properties below hold for every sequence of
  raw draws.
\<close>

record rng =
  raw :: "nat \<Rightarrow> nat"
  pos :: nat

definition advance :: "rng \<Rightarrow> rng" where
  "advance r = r\<lparr>pos := Suc (pos r)\<rparr>"

definition rand :: "rng \<Rightarrow> real \<times> rng" where
  "rand r = (real (raw r (pos r) mod 2 ^ 53) / 2 ^ 53, advance r)"

definition randint :: "nat \<Rightarrow> rng \<Rightarrow> error + (nat \<times> rng)" where
  "randint high r =
     (if high = 0 then Inl ValueError else Inr (raw r (pos r) mod high, advance r))"

definition randint_pair :: "nat \<Rightarrow> rng \<Rightarrow> error + (nat \<times> nat \<times> rng)" where
  "randint_pair high r =
     (case randint high r of
        Inl err \<Rightarrow> Inl err
      | Inr (x, r1) \<Rightarrow>
          (case randint high r1 of
             Inl err \<Rightarrow> Inl err
           | Inr (y, r2) \<Rightarrow> Inr (x, y, r2)))"

section \<open>The operations of the notebook\<close>

subsection \<open>initialize_grid\<close>

text \<open>
  \<^verbatim>\<open>
  def initialize_grid(size, fraction_empty, fraction_A):
      grid = np.zeros((size, size))
      empty_cells = []
      for i in range(size):
          for j in range(size):
              if np.random.rand() < fraction_empty:
                  grid[i, j] = 0  # Empty space
                  empty_cells.append((i,j))
              elif np.random.rand() < fraction_A:
                  grid[i, j] = 1  # Type A
              else:
                  grid[i, j] = 2  # Type B
      return grid,empty_cells
  \<close>
  \<open>init_cell\<close> is the body of the inner loop: one draw decides whether the cell is
  empty, and only when it is not, a second draw decides between the two types. The loop
  counters are within the shape of the fresh array, so the stores cannot raise.
\<close>

definition init_cell ::
  "real \<Rightarrow> real \<Rightarrow> nat \<Rightarrow> nat \<Rightarrow> grid \<times> (nat \<times> nat) list \<times> rng
     \<Rightarrow> grid \<times> (nat \<times> nat) list \<times> rng" where
  "init_cell fraction_empty fraction_A i j s =
     (case s of (g, empty_cells, r) \<Rightarrow>
        (case rand r of (u, r1) \<Rightarrow>
           if u < fraction_empty then (put g (i, j) 0, empty_cells @ [(i, j)], r1)
           else (case rand r1 of (v, r2) \<Rightarrow>
                   if v < fraction_A then (put g (i, j) 1, empty_cells, r2)
                   else (put g (i, j) 2, empty_cells, r2))))"

definition initialize_grid ::
  "nat \<Rightarrow> real \<Rightarrow> real \<Rightarrow> rng \<Rightarrow> grid \<times> (nat \<times> nat) list \<times> rng" where
  "initialize_grid sz fraction_empty fraction_A r =
     fold (\<lambda>i. fold (\<lambda>j. init_cell fraction_empty fraction_A i j) [0..<sz]) [0..<sz]
       (zeros sz sz, [], r)"

subsection \<open>fraction_neighbors_same and is_satisfied\<close>

text \<open>
  \<^verbatim>\<open>
  def fraction_neighbors_same(x,y,grid):
      agent = grid[x, y]
      if agent == 0:
          return None #Don't count empty grid points
      directions = [(-1, -1), (-1, 0), (-1, 1), (0, -1), (0, 1), (1, -1), (1, 0), (1, 1)]
      same = 0
      total = 0
      for dx, dy in directions:
          nx, ny = (x + dx) % grid.shape[0], (y + dy) % grid.shape[1]
          neighbor = grid[nx, ny]
          if neighbor > 0: # is not empty?
              total += 1
              if neighbor == agent:
                  same += 1
      if total == 0:
          return None
      return same / total

  def is_satisfied(x, y, grid, similarity_threshold):
      fraction_same = fraction_neighbors_same(x,y,grid)
      if fraction_same is None:
          return True
      return fraction_same >= similarity_threshold
  \<close>
  The result of \<^verbatim>\<open>fraction_neighbors_same\<close> is an option: \<^verbatim>\<open>None\<close> is \<open>None\<close>, a
  fraction \<open>f\<close> is \<open>Some f\<close>. The fraction is a real number.
\<close>

definition directions :: "(int \<times> int) list" where
  "directions = [(-1, -1), (-1, 0), (-1, 1), (0, -1), (0, 1), (1, -1), (1, 0), (1, 1)]"

text \<open>
  \<^verbatim>\<open>(x + dx) % grid.shape[0]\<close>: Python's remainder by a positive number lies in
  \<open>{0..<n}\<close>, as HOL's \<open>mod\<close> on integers does.
\<close>

definition wrap :: "nat \<Rightarrow> int \<Rightarrow> nat \<Rightarrow> nat" where
  "wrap x dx n = nat ((int x + dx) mod int n)"

text \<open>
  One pass of the loop over the directions, on the counters \<open>(same, tot)\<close>, the
  source's \<^verbatim>\<open>same\<close> and \<^verbatim>\<open>total\<close>. The loop runs after the read of
  \<^verbatim>\<open>grid[x, y]\<close> has succeeded, so both shapes are positive, the wrapped coordinates
  are within the shape (lemma \<open>wrap_less\<close>) and the read of the neighbour cannot raise.
\<close>

definition look :: "grid \<Rightarrow> nat \<Rightarrow> nat \<Rightarrow> int \<Rightarrow> int \<times> int \<Rightarrow> nat \<times> nat \<Rightarrow> nat \<times> nat" where
  "look g x y agent d c =
     (case d of (dx, dy) \<Rightarrow> (case c of (same, tot) \<Rightarrow>
        (let nx = wrap x dx (shape0 g); ny = wrap y dy (shape1 g);
             neighbor = cells g (nx, ny)
         in if neighbor > 0
            then (if neighbor = agent then (same + 1, tot + 1) else (same, tot + 1))
            else (same, tot))))"

definition fraction_neighbors_same :: "nat \<Rightarrow> nat \<Rightarrow> grid \<Rightarrow> error + real option" where
  "fraction_neighbors_same x y g =
     (case getitem g x y of
        Inl err \<Rightarrow> Inl err
      | Inr agent \<Rightarrow>
          if agent = 0 then Inr None
          else (case fold (look g x y agent) directions (0, 0) of (same, tot) \<Rightarrow>
                  if tot = 0 then Inr None
                  else Inr (Some (real same / real tot))))"

definition is_satisfied :: "nat \<Rightarrow> nat \<Rightarrow> grid \<Rightarrow> real \<Rightarrow> error + bool" where
  "is_satisfied x y g similarity_threshold =
     (case fraction_neighbors_same x y g of
        Inl err \<Rightarrow> Inl err
      | Inr None \<Rightarrow> Inr True
      | Inr (Some fraction_same) \<Rightarrow> Inr (fraction_same \<ge> similarity_threshold))"

subsection \<open>update\<close>

text \<open>
  \<^verbatim>\<open>
  def update(grid, emptycells, size, similarity_threshold, agents_per_step):
      was_move = False
      for _ in range(agents_per_step):  # Check N agents per frame
          x, y = np.random.randint(size, size=2)
          if not is_satisfied(x, y, grid, similarity_threshold):
              randindex = np.random.randint(len(emptycells))
              new_x,new_y = emptycells[randindex]
              emptycells[randindex] = (x,y)
              grid[new_x, new_y], grid[x, y] = grid[x, y], 0
              was_move = True
      return grid,emptycells,was_move
  \<close>
  \<open>update_iter\<close> is one pass of the loop. The statements run in the source's order: the
  draw of the index into the list, the read of the list, the store into the list, then
  the tuple assignment, whose right-hand side is read first and whose targets are
  stored from left to right. The grid and the list are mutated in place; the model
  passes them through and returns them. An exception ends the call, and the model then
  returns the error alone.
\<close>

definition update_iter ::
  "grid \<Rightarrow> (nat \<times> nat) list \<Rightarrow> nat \<Rightarrow> real \<Rightarrow> bool \<Rightarrow> rng
     \<Rightarrow> error + (grid \<times> (nat \<times> nat) list \<times> bool \<times> rng)" where
  "update_iter g emptycells sz similarity_threshold was_move r =
     (case randint_pair sz r of
        Inl err \<Rightarrow> Inl err
      | Inr (x, y, r2) \<Rightarrow>
          (case is_satisfied x y g similarity_threshold of
             Inl err \<Rightarrow> Inl err
           | Inr True \<Rightarrow> Inr (g, emptycells, was_move, r2)
           | Inr False \<Rightarrow>
               (case randint (length emptycells) r2 of
                  Inl err \<Rightarrow> Inl err
                | Inr (randindex, r3) \<Rightarrow>
                    (case emptycells ! randindex of (new_x, new_y) \<Rightarrow>
                       (case getitem g x y of
                          Inl err \<Rightarrow> Inl err
                        | Inr agent \<Rightarrow>
                            (case setitem g new_x new_y agent of
                               Inl err \<Rightarrow> Inl err
                             | Inr g1 \<Rightarrow>
                                 (case setitem g1 x y 0 of
                                    Inl err \<Rightarrow> Inl err
                                  | Inr g2 \<Rightarrow>
                                      Inr (g2, emptycells[randindex := (x, y)], True, r3))))))))"

fun update_loop ::
  "nat \<Rightarrow> grid \<Rightarrow> (nat \<times> nat) list \<Rightarrow> nat \<Rightarrow> real \<Rightarrow> bool \<Rightarrow> rng
     \<Rightarrow> error + (grid \<times> (nat \<times> nat) list \<times> bool \<times> rng)" where
  "update_loop 0 g emptycells sz similarity_threshold was_move r =
     Inr (g, emptycells, was_move, r)"
| "update_loop (Suc k) g emptycells sz similarity_threshold was_move r =
     (case update_iter g emptycells sz similarity_threshold was_move r of
        Inl err \<Rightarrow> Inl err
      | Inr (g', emptycells', was_move', r') \<Rightarrow>
          update_loop k g' emptycells' sz similarity_threshold was_move' r')"

definition update ::
  "grid \<Rightarrow> (nat \<times> nat) list \<Rightarrow> nat \<Rightarrow> real \<Rightarrow> nat \<Rightarrow> rng
     \<Rightarrow> error + (grid \<times> (nat \<times> nat) list \<times> bool \<times> rng)" where
  "update g emptycells sz similarity_threshold agents_per_step r =
     update_loop agents_per_step g emptycells sz similarity_threshold False r"

subsection \<open>average_neighbor_similarity\<close>

text \<open>
  \<^verbatim>\<open>
  def average_neighbor_similarity(grid):
      n, m = grid.shape
      l = []
      for i in range(n):
          for j in range(m):
              f = fraction_neighbors_same(i,j,grid)
              if f is not None:
                  l.append(f)
      return np.mean(l)
  \<close>
  \<^verbatim>\<open>np.mean\<close> of a list of floats is the sum divided by the length, and not-a-number
  (with a warning, not an exception) for the empty list. The fractions are kept as
  real numbers; the rounding of floating-point division and summation is not modelled.
\<close>

datatype npfloat = NaN | Val real

definition mean :: "real list \<Rightarrow> npfloat" where
  "mean l = (if l = [] then NaN else Val (sum_list l / real (length l)))"

text \<open>The body of the inner loop, on the list \<open>l\<close>; an exception ends the loops.\<close>

definition collect :: "grid \<Rightarrow> nat \<Rightarrow> nat \<Rightarrow> error + real list \<Rightarrow> error + real list" where
  "collect g i j acc =
     (case acc of
        Inl err \<Rightarrow> Inl err
      | Inr l \<Rightarrow>
          (case fraction_neighbors_same i j g of
             Inl err \<Rightarrow> Inl err
           | Inr None \<Rightarrow> Inr l
           | Inr (Some f) \<Rightarrow> Inr (l @ [f])))"

definition average_neighbor_similarity :: "grid \<Rightarrow> error + npfloat" where
  "average_neighbor_similarity g =
     (case fold (\<lambda>i. fold (\<lambda>j. collect g i j) [0..<shape1 g]) [0..<shape0 g] (Inr []) of
        Inl err \<Rightarrow> Inl err
      | Inr l \<Rightarrow> Inr (mean l))"

section \<open>Notions used to state the properties\<close>

text \<open>The coordinates of a grid, row by row.\<close>

definition coords :: "grid \<Rightarrow> (nat \<times> nat) list" where
  "coords g = List.product [0..<shape0 g] [0..<shape1 g]"

text \<open>Every cell holds one of the three codes.\<close>

definition valid_grid :: "grid \<Rightarrow> bool" where
  "valid_grid g = list_all (\<lambda>p. cells g p = 0 \<or> cells g p = 1 \<or> cells g p = 2) (coords g)"

text \<open>The number of cells holding the code \<open>c\<close>.\<close>

definition count_cells :: "grid \<Rightarrow> int \<Rightarrow> nat" where
  "count_cells g c = length (filter (\<lambda>p. cells g p = c) (coords g))"

text \<open>The number of agents on the grid.\<close>

definition count_agents :: "grid \<Rightarrow> nat" where
  "count_agents g = length (filter (\<lambda>p. cells g p \<noteq> 0) (coords g))"

text \<open>The coordinates whose cell is empty.\<close>

definition empty_coords :: "grid \<Rightarrow> (nat \<times> nat) set" where
  "empty_coords g = set (filter (\<lambda>p. cells g p = 0) (coords g))"

text \<open>
  The list of empty cells agrees with the grid: it has no duplicates and lists exactly
  the empty coordinates.
\<close>

definition consistent :: "grid \<Rightarrow> (nat \<times> nat) list \<Rightarrow> bool" where
  "consistent g emptycells \<longleftrightarrow> distinct emptycells \<and> set emptycells = empty_coords g"

text \<open>
  The states a run can be in: the one \<^verbatim>\<open>initialize_grid\<close> returns, and the one any
  returning call of \<^verbatim>\<open>update\<close> leaves, whatever its parameters and draws. The
  states between the passes of a call are among them: a call with fewer agents returns
  them.
\<close>

inductive reachable :: "grid \<Rightarrow> (nat \<times> nat) list \<Rightarrow> bool" where
  init: "initialize_grid sz fraction_empty fraction_A r = (g, emptycells, r')
           \<Longrightarrow> reachable g emptycells"
| step: "reachable g emptycells
           \<Longrightarrow> update g emptycells sz similarity_threshold agents_per_step r
                 = Inr (g', emptycells', was_move, r')
           \<Longrightarrow> reachable g' emptycells'"

text \<open>
  The neighbourhood as the specification words it: the offsets are all combinations of
  \<open>-1, 0, 1\<close> but \<open>(0, 0)\<close>, each coordinate wrapped modulo the shape; \<open>spec_total\<close>
  counts the neighbours that are not empty, \<open>spec_same\<close> those among them that hold
  the code of the cell itself.
\<close>

definition moore_offsets :: "(int \<times> int) list" where
  "moore_offsets = filter (\<lambda>d. d \<noteq> (0, 0)) (List.product [-1, 0, 1] [-1, 0, 1])"

definition moore_neighbors :: "grid \<Rightarrow> nat \<Rightarrow> nat \<Rightarrow> (nat \<times> nat) list" where
  "moore_neighbors g x y =
     map (\<lambda>d. (nat ((int x + fst d) mod int (shape0 g)), nat ((int y + snd d) mod int (shape1 g))))
       moore_offsets"

definition spec_total :: "grid \<Rightarrow> nat \<Rightarrow> nat \<Rightarrow> nat" where
  "spec_total g x y = length (filter (\<lambda>p. cells g p \<noteq> 0) (moore_neighbors g x y))"

definition spec_same :: "grid \<Rightarrow> nat \<Rightarrow> nat \<Rightarrow> nat" where
  "spec_same g x y =
     length (filter (\<lambda>p. cells g p \<noteq> 0 \<and> cells g p = cells g (x, y)) (moore_neighbors g x y))"

text \<open>
  The mean as the specification words it: over the coordinates where the similarity is
  defined, the sum of the similarities divided by their number.
\<close>

definition is_defined :: "grid \<Rightarrow> nat \<times> nat \<Rightarrow> bool" where
  "is_defined g p =
     (case fraction_neighbors_same (fst p) (snd p) g of Inr (Some f) \<Rightarrow> True | _ \<Rightarrow> False)"

definition defined_at :: "grid \<Rightarrow> (nat \<times> nat) set" where
  "defined_at g = {p \<in> set (coords g). is_defined g p}"

definition similarity_at :: "grid \<Rightarrow> nat \<times> nat \<Rightarrow> real" where
  "similarity_at g p =
     (case fraction_neighbors_same (fst p) (snd p) g of Inr (Some f) \<Rightarrow> f | _ \<Rightarrow> 0)"

definition spec_mean :: "grid \<Rightarrow> real" where
  "spec_mean g = sum (similarity_at g) (defined_at g) / real (card (defined_at g))"

text \<open>
  Successive calls of \<^verbatim>\<open>update\<close>, each on the state the call before returned, as the
  notebook's loops make them; \<open>ns\<close> gives the number of agents of each call, and the
  flags of the calls are returned in order.
\<close>

fun update_seq ::
  "grid \<Rightarrow> (nat \<times> nat) list \<Rightarrow> nat \<Rightarrow> real \<Rightarrow> nat list \<Rightarrow> rng
     \<Rightarrow> error + (grid \<times> (nat \<times> nat) list \<times> bool list \<times> rng)" where
  "update_seq g emptycells sz similarity_threshold [] r = Inr (g, emptycells, [], r)"
| "update_seq g emptycells sz similarity_threshold (n # ns) r =
     (case update g emptycells sz similarity_threshold n r of
        Inl err \<Rightarrow> Inl err
      | Inr (g', emptycells', was_move, r') \<Rightarrow>
          (case update_seq g' emptycells' sz similarity_threshold ns r' of
             Inl err \<Rightarrow> Inl err
           | Inr (g'', emptycells'', flags, r'') \<Rightarrow>
               Inr (g'', emptycells'', was_move # flags, r'')))"

text \<open>A random source that replays the raw draws of a list, then zeros.\<close>

definition replay :: "nat list \<Rightarrow> rng" where
  "replay xs = \<lparr>raw = (\<lambda>i. if i < length xs then xs ! i else 0), pos = 0\<rparr>"

text \<open>The neighbour of \<open>(x, y)\<close> in the direction \<open>d\<close>, as the loop computes it.\<close>

definition nbr :: "grid \<Rightarrow> nat \<Rightarrow> nat \<Rightarrow> int \<times> int \<Rightarrow> nat \<times> nat" where
  "nbr g x y d = (wrap x (fst d) (shape0 g), wrap y (snd d) (shape1 g))"

subsection \<open>A small run\<close>

text \<open>
  A grid of size 2 initialised with a quarter of the cells empty in expectation: the
  draws make the first row A, B and the second row empty, B. The remaining draws sample
  the cell \<open>(0, 0)\<close> and the index 0 of the list of empty cells.
\<close>

definition demo_rng :: rng where
  "demo_rng = replay [2 ^ 52, 0, 2 ^ 52, 2 ^ 52, 0, 2 ^ 52, 2 ^ 52, 0, 0, 0]"

definition demo_grid :: grid where
  "demo_grid = \<lparr>shape0 = 2, shape1 = 2,
     cells = (\<lambda>_. 0)((0, 0) := 1, (0, 1) := 2, (1, 0) := 0, (1, 1) := 2)\<rparr>"

text \<open>The grid of the small run after the agent at \<open>(0, 0)\<close> has moved to \<open>(1, 0)\<close>.\<close>

definition moved_grid :: grid where
  "moved_grid = put (put demo_grid (1, 0) 1) (0, 0) 0"

subsection \<open>Small grids\<close>

text \<open>A grid given by its rows.\<close>

definition of_rows :: "nat \<Rightarrow> nat \<Rightarrow> int list list \<Rightarrow> grid" where
  "of_rows n m rows =
     \<lparr>shape0 = n, shape1 = m,
      cells = (\<lambda>p. if fst p < n \<and> snd p < m then rows ! fst p ! snd p else 0)\<rparr>"

definition mixed_grid :: grid where
  "mixed_grid = of_rows 3 3 [ [1, 2, 0], [0, 1, 2], [2, 0, 1]]"

definition lonely_grid :: grid where
  "lonely_grid = of_rows 3 3 [ [0, 0, 0], [0, 1, 0], [0, 0, 0]]"

text \<open>A grid without an empty cell.\<close>

definition full_grid :: grid where
  "full_grid = of_rows 2 2 [ [1, 2], [2, 2]]"

section \<open>Basic facts\<close>

lemma set_coords: "p \<in> set (coords g) \<longleftrightarrow> fst p < shape0 g \<and> snd p < shape1 g"
  by (cases p) (simp add: coords_def)

lemma distinct_coords: "distinct (coords g)"
  by (simp add: coords_def distinct_product)

lemma wrap_less: "0 < n \<Longrightarrow> wrap x dx n < n"
  by (simp add: wrap_def nat_less_iff)

lemma moore_offsets_directions: "moore_offsets = directions"
  by (simp add: moore_offsets_def directions_def)

lemma fold_look:
  "fold (look g x y agent) ds (same, tot) =
     (same + length (filter (\<lambda>d. cells g (nbr g x y d) > 0 \<and> cells g (nbr g x y d) = agent) ds),
      tot + length (filter (\<lambda>d. cells g (nbr g x y d) > 0) ds))"
  by (induction ds arbitrary: same tot) (auto simp: look_def nbr_def Let_def split: prod.splits)

lemma moore_neighbors_nbr: "moore_neighbors g x y = map (nbr g x y) directions"
  by (simp add: moore_neighbors_def moore_offsets_directions nbr_def wrap_def)

lemma moore_neighbors_in_range:
  assumes "x < shape0 g" "y < shape1 g" "p \<in> set (moore_neighbors g x y)"
  shows "p \<in> set (coords g)"
  using assms by (auto simp: moore_neighbors_nbr nbr_def set_coords wrap_less)

lemma valid_gridD: "valid_grid g \<Longrightarrow> p \<in> set (coords g) \<Longrightarrow> cells g p = 0 \<or> cells g p = 1 \<or> cells g p = 2"
  by (auto simp: valid_grid_def list_all_iff)

lemma fns_unfold:
  assumes "x < shape0 g" "y < shape1 g"
  shows "fraction_neighbors_same x y g =
     (if cells g (x, y) = 0 then Inr None
      else let same = length (filter (\<lambda>p. cells g p > 0 \<and> cells g p = cells g (x, y)) (moore_neighbors g x y));
               tot = length (filter (\<lambda>p. cells g p > 0) (moore_neighbors g x y))
           in if tot = 0 then Inr None else Inr (Some (real same / real tot)))"
  using assms
  by (simp add: fraction_neighbors_same_def getitem_def fold_look moore_neighbors_nbr
      filter_map o_def Let_def)

lemma fns_valid:
  assumes "valid_grid g" "x < shape0 g" "y < shape1 g"
  shows "fraction_neighbors_same x y g =
     (if cells g (x, y) = 0 \<or> spec_total g x y = 0 then Inr None
      else Inr (Some (real (spec_same g x y) / real (spec_total g x y))))"
proof -
  have pos: "cells g p > 0 \<longleftrightarrow> cells g p \<noteq> 0" if "p \<in> set (moore_neighbors g x y)" for p
    using valid_gridD[OF assms(1) moore_neighbors_in_range[OF assms(2,3) that]] by auto
  have t: "filter (\<lambda>p. cells g p > 0) (moore_neighbors g x y)
         = filter (\<lambda>p. cells g p \<noteq> 0) (moore_neighbors g x y)"
    by (rule filter_cong) (auto simp: pos)
  have s: "filter (\<lambda>p. cells g p > 0 \<and> cells g p = cells g (x, y)) (moore_neighbors g x y)
         = filter (\<lambda>p. cells g p \<noteq> 0 \<and> cells g p = cells g (x, y)) (moore_neighbors g x y)"
    by (rule filter_cong) (auto simp: pos)
  show ?thesis
    by (simp add: fns_unfold[OF assms(2,3)] t s spec_total_def spec_same_def Let_def)
qed

lemma spec_same_le: "spec_same g x y \<le> spec_total g x y"
proof -
  have "filter (\<lambda>p. cells g p \<noteq> 0 \<and> cells g p = cells g (x, y)) (moore_neighbors g x y)
      = filter (\<lambda>p. cells g p = cells g (x, y)) (filter (\<lambda>p. cells g p \<noteq> 0) (moore_neighbors g x y))"
    by (simp add: conj_commute)
  then show ?thesis
    unfolding spec_same_def spec_total_def by (metis length_filter_le)
qed

lemma fns_cases:
  assumes "x < shape0 g" "y < shape1 g"
  shows "fraction_neighbors_same x y g = Inr None \<or>
         (\<exists>f. fraction_neighbors_same x y g = Inr (Some f) \<and> 0 \<le> f \<and> f \<le> 1)"
proof -
  have "length (filter (\<lambda>p. cells g p > 0 \<and> cells g p = cells g (x, y)) (moore_neighbors g x y))
      \<le> length (filter (\<lambda>p. cells g p > 0) (moore_neighbors g x y))"
  proof -
    have "filter (\<lambda>p. cells g p > 0 \<and> cells g p = cells g (x, y)) (moore_neighbors g x y)
      = filter (\<lambda>p. cells g p = cells g (x, y)) (filter (\<lambda>p. cells g p > 0) (moore_neighbors g x y))"
      by (simp add: conj_commute)
    then show ?thesis by (metis length_filter_le)
  qed
  then show ?thesis
    by (simp add: fns_unfold[OF assms] Let_def divide_le_eq)
qed

section \<open>The list of empty cells agrees with the grid\<close>

lemma init_cell_cases:
  "(\<exists>r1. init_cell fe fa i j (g, ec, r) = (put g (i, j) 0, ec @ [(i, j)], r1)) \<or>
   (\<exists>v r2. v \<noteq> 0 \<and> init_cell fe fa i j (g, ec, r) = (put g (i, j) v, ec, r2))"
proof -
  obtain u r1 where u: "rand r = (u, r1)" by (cases "rand r")
  obtain v r2 where v: "rand r1 = (v, r2)" by (cases "rand r1")
  have one: "(1::int) \<noteq> 0" and two: "(2::int) \<noteq> 0" by simp_all
  show ?thesis
  proof (cases "u < fe")
    case True
    then show ?thesis by (simp add: init_cell_def u)
  next
    case False
    show ?thesis
    proof (cases "v < fa")
      case True
      with False have "init_cell fe fa i j (g, ec, r) = (put g (i, j) 1, ec, r2)"
        by (simp add: init_cell_def u v)
      with one show ?thesis by blast
    next
      case nA: False
      with False have "init_cell fe fa i j (g, ec, r) = (put g (i, j) 2, ec, r2)"
        by (simp add: init_cell_def u v)
      with two show ?thesis by blast
    qed
  qed
qed

lemma init_cell_inv:
  assumes "init_cell fe fa i j (g, ec, r) = (g', ec', r')"
    and "distinct ec" and "set ec = {p \<in> D. cells g p = 0}" and "(i, j) \<notin> D"
  shows "distinct ec' \<and> set ec' = {p \<in> insert (i, j) D. cells g' p = 0}
         \<and> shape0 g' = shape0 g \<and> shape1 g' = shape1 g"
proof -
  from init_cell_cases[of fe fa i j g ec r] assms(1)
  consider "g' = put g (i, j) 0" "ec' = ec @ [(i, j)]"
    | v where "v \<noteq> 0" "g' = put g (i, j) v" "ec' = ec"
    by auto
  then show ?thesis
  proof cases
    case 1
    have "(i, j) \<notin> set ec" using assms(3,4) by simp
    moreover have "{p \<in> insert (i, j) D. cells g' p = 0} = insert (i, j) {p \<in> D. cells g p = 0}"
      using assms(4) 1 by (auto simp: put_def)
    ultimately show ?thesis using 1 assms(2,3) by (simp add: put_def)
  next
    case 2
    have "{p \<in> insert (i, j) D. cells g' p = 0} = {p \<in> D. cells g p = 0}"
      using assms(4) 2 by (auto simp: put_def)
    then show ?thesis using 2 assms(2,3) by (simp add: put_def)
  qed
qed

lemma init_row_inv:
  assumes "fold (\<lambda>j. init_cell fe fa i j) js (g, ec, r) = (g', ec', r')"
    and "distinct ec" and "set ec = {p \<in> D. cells g p = 0}"
    and "distinct js" and "\<forall>j \<in> set js. (i, j) \<notin> D"
  shows "distinct ec' \<and> set ec' = {p \<in> D \<union> {i} \<times> set js. cells g' p = 0}
         \<and> shape0 g' = shape0 g \<and> shape1 g' = shape1 g"
  using assms
proof (induction js arbitrary: g ec r D)
  case Nil
  then show ?case by simp
next
  case (Cons j js)
  obtain g1 ec1 r1 where c: "init_cell fe fa i j (g, ec, r) = (g1, ec1, r1)"
    by (cases "init_cell fe fa i j (g, ec, r)")
  from Cons.prems have nin: "(i, j) \<notin> D" by simp
  from init_cell_inv[OF c Cons.prems(2,3) nin]
  have s1: "distinct ec1" "set ec1 = {p \<in> insert (i, j) D. cells g1 p = 0}"
    "shape0 g1 = shape0 g" "shape1 g1 = shape1 g" by simp_all
  from Cons.prems(1) c
  have f: "fold (\<lambda>j. init_cell fe fa i j) js (g1, ec1, r1) = (g', ec', r')" by simp
  have d: "\<forall>j' \<in> set js. (i, j') \<notin> insert (i, j) D"
    using Cons.prems(4,5) by auto
  from Cons.prems(4) have djs: "distinct js" by simp
  have e: "insert (i, j) D \<union> {i} \<times> set js = D \<union> {i} \<times> set (j # js)" by auto
  from Cons.IH[OF f s1(1) s1(2) djs d] show ?case
    unfolding e s1(3) s1(4) .
qed

lemma init_rows_inv:
  assumes "fold (\<lambda>i. fold (\<lambda>j. init_cell fe fa i j) js) is (g, ec, r) = (g', ec', r')"
    and "distinct ec" and "set ec = {p \<in> D. cells g p = 0}"
    and "distinct js" and "distinct is" and "\<forall>i \<in> set is. \<forall>j \<in> set js. (i, j) \<notin> D"
  shows "distinct ec' \<and> set ec' = {p \<in> D \<union> set is \<times> set js. cells g' p = 0}
         \<and> shape0 g' = shape0 g \<and> shape1 g' = shape1 g"
  using assms
proof (induction "is" arbitrary: g ec r D)
  case Nil
  then show ?case by simp
next
  case (Cons i "is")
  obtain g1 ec1 r1 where c: "fold (\<lambda>j. init_cell fe fa i j) js (g, ec, r) = (g1, ec1, r1)"
    by (cases "fold (\<lambda>j. init_cell fe fa i j) js (g, ec, r)")
  have nin: "\<forall>j \<in> set js. (i, j) \<notin> D" using Cons.prems(6) by simp
  from init_row_inv[OF c Cons.prems(2,3,4) nin]
  have s1: "distinct ec1" "set ec1 = {p \<in> D \<union> {i} \<times> set js. cells g1 p = 0}"
    "shape0 g1 = shape0 g" "shape1 g1 = shape1 g" by simp_all
  from Cons.prems(1) c
  have f: "fold (\<lambda>i. fold (\<lambda>j. init_cell fe fa i j) js) is (g1, ec1, r1) = (g', ec', r')" by simp
  have d: "\<forall>i' \<in> set is. \<forall>j \<in> set js. (i', j) \<notin> D \<union> {i} \<times> set js"
    using Cons.prems(5,6) by auto
  from Cons.prems(5) have dis: "distinct is" by simp
  have e: "(D \<union> {i} \<times> set js) \<union> set is \<times> set js = D \<union> set (i # is) \<times> set js" by auto
  from Cons.IH[OF f s1(1) s1(2) Cons.prems(4) dis d] show ?case
    unfolding e s1(3) s1(4) .
qed

lemma empty_coords_iff:
  "p \<in> empty_coords g \<longleftrightarrow> fst p < shape0 g \<and> snd p < shape1 g \<and> cells g p = 0"
  by (simp add: empty_coords_def set_coords)

lemma initialize_grid_consistent:
  assumes "initialize_grid sz fe fa r = (g, ec, r')"
  shows "consistent g ec \<and> shape0 g = sz \<and> shape1 g = sz"
proof -
  have f: "fold (\<lambda>i. fold (\<lambda>j. init_cell fe fa i j) [0..<sz]) [0..<sz] (zeros sz sz, [], r) = (g, ec, r')"
    using assms by (simp add: initialize_grid_def)
  have "distinct ec \<and> set ec = {p \<in> {} \<union> set [0..<sz] \<times> set [0..<sz]. cells g p = 0}
         \<and> shape0 g = shape0 (zeros sz sz) \<and> shape1 g = shape1 (zeros sz sz)"
    by (rule init_rows_inv[OF f]) simp_all
  then have *: "distinct ec" "set ec = {p \<in> {0..<sz} \<times> {0..<sz}. cells g p = 0}"
    "shape0 g = sz" "shape1 g = sz"
    by (simp_all add: zeros_def)
  have "set ec = empty_coords g"
  proof (rule set_eqI)
    fix p show "p \<in> set ec \<longleftrightarrow> p \<in> empty_coords g"
      by (cases p) (simp add: * empty_coords_iff)
  qed
  with * show ?thesis by (simp add: consistent_def)
qed

lemma randint_less: "randint n r = Inr (k, r') \<Longrightarrow> k < n"
  by (cases "n = 0") (auto simp: randint_def)

lemma fns_Some:
  assumes "fraction_neighbors_same x y g = Inr (Some f)"
  shows "x < shape0 g \<and> y < shape1 g \<and> cells g (x, y) \<noteq> 0"
proof -
  have r: "x < shape0 g \<and> y < shape1 g"
    using assms by (cases "x < shape0 g \<and> y < shape1 g")
      (simp_all add: fraction_neighbors_same_def getitem_def)
  then have "cells g (x, y) \<noteq> 0"
    using assms by (cases "cells g (x, y) = 0")
      (simp_all add: fraction_neighbors_same_def getitem_def)
  with r show ?thesis by simp
qed

lemma is_satisfied_False:
  assumes "is_satisfied x y g thr = Inr False"
  shows "x < shape0 g \<and> y < shape1 g \<and> cells g (x, y) \<noteq> 0"
proof (cases "fraction_neighbors_same x y g")
  case (Inl err)
  with assms show ?thesis by (simp add: is_satisfied_def)
next
  case (Inr fo)
  show ?thesis
  proof (cases fo)
    case None
    with Inr assms show ?thesis by (simp add: is_satisfied_def)
  next
    case (Some f)
    with Inr show ?thesis using fns_Some by simp
  qed
qed

lemma update_iter_satisfied:
  assumes "randint_pair sz r = Inr (x, y, r2)" and "is_satisfied x y g thr = Inr True"
  shows "update_iter g e sz thr wm r = Inr (g, e, wm, r2)"
  using assms by (simp add: update_iter_def)

lemma update_iter_move_facts:
  assumes "consistent g e" and "is_satisfied x y g thr = Inr False"
    and "randint (length e) r2 = Inr (k, r3)"
  shows "x < shape0 g" "y < shape1 g" "cells g (x, y) \<noteq> 0" "k < length e"
    "fst (e ! k) < shape0 g" "snd (e ! k) < shape1 g" "cells g (e ! k) = 0" "e ! k \<noteq> (x, y)"
proof -
  from is_satisfied_False[OF assms(2)]
  show xy: "x < shape0 g" "y < shape1 g" "cells g (x, y) \<noteq> 0" by simp_all
  from randint_less[OF assms(3)] show k: "k < length e" .
  then have "e ! k \<in> set e" by simp
  then have "e ! k \<in> empty_coords g" using assms(1) by (simp add: consistent_def)
  then show d: "fst (e ! k) < shape0 g" "snd (e ! k) < shape1 g" "cells g (e ! k) = 0"
    by (simp_all add: empty_coords_iff)
  with xy show "e ! k \<noteq> (x, y)" by auto
qed

lemma update_iter_move:
  assumes "consistent g e" and "randint_pair sz r = Inr (x, y, r2)"
    and "is_satisfied x y g thr = Inr False" and "randint (length e) r2 = Inr (k, r3)"
  shows "update_iter g e sz thr wm r
       = Inr (put (put g (e ! k) (cells g (x, y))) (x, y) 0, e[k := (x, y)], True, r3)"
proof -
  note m = update_iter_move_facts[OF assms(1,3,4)]
  obtain a b where ab: "e ! k = (a, b)" by (cases "e ! k")
  with m have "a < shape0 g" "b < shape1 g" by simp_all
  with m(1,2) show ?thesis
    by (simp add: update_iter_def assms(2,3,4) ab getitem_def setitem_def put_def)
qed

lemma update_iter_cases:
  assumes "update_iter g e sz thr wm r = Inr (g', e', wm', r')"
  shows "(g' = g \<and> e' = e \<and> wm' = wm) \<or>
         (\<exists>x y r2 k r3. randint_pair sz r = Inr (x, y, r2) \<and> is_satisfied x y g thr = Inr False
            \<and> randint (length e) r2 = Inr (k, r3))"
proof (cases "randint_pair sz r")
  case (Inl err)
  with assms show ?thesis by (simp add: update_iter_def)
next
  case (Inr t)
  obtain x y r2 where t: "t = (x, y, r2)" by (cases t)
  show ?thesis
  proof (cases "is_satisfied x y g thr")
    case (Inl err)
    with assms Inr t show ?thesis by (simp add: update_iter_def)
  next
    case sat: (Inr b)
    show ?thesis
    proof (cases b)
      case True
      with sat Inr t assms show ?thesis by (simp add: update_iter_def)
    next
      case False
      show ?thesis
      proof (cases "randint (length e) r2")
        case (Inl err)
        with assms Inr t sat False show ?thesis by (simp add: update_iter_def)
      next
        case ri: (Inr u)
        obtain k r3 where "u = (k, r3)" by (cases u)
        with ri sat False Inr t show ?thesis by simp
      qed
    qed
  qed
qed

lemma relocate_consistent:
  assumes "consistent g e" and "k < length e" and "cells g (x, y) \<noteq> 0"
    and "x < shape0 g" and "y < shape1 g"
  shows "consistent (put (put g (e ! k) (cells g (x, y))) (x, y) 0) (e[k := (x, y)])"
proof -
  let ?g = "put (put g (e ! k) (cells g (x, y))) (x, y) 0"
  from assms have d: "distinct e" and s: "set e = empty_coords g"
    by (simp_all add: consistent_def)
  have "e ! k \<in> set e" using assms(2) by simp
  then have ek: "e ! k \<in> empty_coords g" using s by simp
  have xy: "(x, y) \<notin> set e" using s assms(3) by (simp add: empty_coords_iff)
  have 1: "distinct (e[k := (x, y)])"
    using d xy by (simp add: distinct_list_update)
  have 2: "set (e[k := (x, y)]) = insert (x, y) (set e - {e ! k})"
    using d assms(2) by (rule set_update_distinct)
  have sh: "shape0 ?g = shape0 g" "shape1 ?g = shape1 g" by (simp_all add: put_def)
  have c: "cells ?g p = (if p = (x, y) then 0 else if p = e ! k then cells g (x, y) else cells g p)"
    for p by (simp add: put_def)
  have 3: "empty_coords ?g = insert (x, y) (empty_coords g - {e ! k})"
  proof (rule set_eqI)
    fix p
    show "p \<in> empty_coords ?g \<longleftrightarrow> p \<in> insert (x, y) (empty_coords g - {e ! k})"
    proof (cases "p = (x, y)")
      case True
      then show ?thesis using assms(4,5) by (simp add: empty_coords_iff sh c)
    next
      case False
      then show ?thesis using assms(3) by (simp add: empty_coords_iff sh c)
    qed
  qed
  show ?thesis unfolding consistent_def using 1 2 3 s by simp
qed

lemma update_iter_consistent:
  assumes "consistent g e" and "update_iter g e sz thr wm r = Inr (g', e', wm', r')"
  shows "consistent g' e'"
proof -
  from update_iter_cases[OF assms(2)]
  consider "g' = g \<and> e' = e" |
    x y r2 k r3 where "randint_pair sz r = Inr (x, y, r2)" "is_satisfied x y g thr = Inr False"
      "randint (length e) r2 = Inr (k, r3)"
    by blast
  then show ?thesis
  proof cases
    case 1
    then show ?thesis using assms(1) by simp
  next
    case 2
    note m = update_iter_move_facts[OF assms(1) 2(2,3)]
    from update_iter_move[OF assms(1) 2, of wm] assms(2)
    have "g' = put (put g (e ! k) (cells g (x, y))) (x, y) 0" "e' = e[k := (x, y)]"
      by simp_all
    then show ?thesis
      using relocate_consistent[OF assms(1) m(4) m(3) m(1) m(2)] by simp
  qed
qed

lemma update_loop_consistent:
  assumes "consistent g e" and "update_loop n g e sz thr wm r = Inr (g', e', wm', r')"
  shows "consistent g' e'"
  using assms
proof (induction n arbitrary: g e wm r)
  case 0
  then show ?case by simp
next
  case (Suc n)
  show ?case
  proof (cases "update_iter g e sz thr wm r")
    case (Inl err)
    with Suc.prems(2) show ?thesis by simp
  next
    case (Inr t)
    obtain g1 e1 wm1 r1 where t: "t = (g1, e1, wm1, r1)" by (cases t)
    from update_iter_consistent[OF Suc.prems(1) Inr[unfolded t]]
    have c: "consistent g1 e1" .
    from Suc.prems(2) Inr t
    have "update_loop n g1 e1 sz thr wm1 r1 = Inr (g', e', wm', r')" by simp
    from Suc.IH[OF c this] show ?thesis .
  qed
qed

lemma reachable_consistent: "reachable g e \<Longrightarrow> consistent g e"
proof (induction rule: reachable.induct)
  case (init sz fe fa r g e r')
  from initialize_grid_consistent[OF init] show ?case by simp
next
  case (step g e sz thr n r g' e' wm r')
  from step(2) have "update_loop n g e sz thr False r = Inr (g', e', wm, r')"
    by (simp add: update_def)
  from update_loop_consistent[OF step(3) this] show ?case .
qed

lemma consistent_length:
  assumes "consistent g e"
  shows "length e = count_cells g 0"
proof -
  have "distinct (filter (\<lambda>p. cells g p = 0) (coords g))"
    by (simp add: distinct_coords)
  then have "card (empty_coords g) = count_cells g 0"
    unfolding empty_coords_def count_cells_def by (rule distinct_card)
  moreover have "card (set e) = length e"
  proof -
    have "distinct e" using assms by (simp add: consistent_def)
    then show ?thesis by (rule distinct_card)
  qed
  moreover have "set e = empty_coords g" using assms by (simp add: consistent_def)
  ultimately show ?thesis by simp
qed

subsection \<open>The cells keep the three codes\<close>

lemma fold_invariant:
  assumes "\<And>x s. x \<in> set xs \<Longrightarrow> P s \<Longrightarrow> P (f x s)" and "P s"
  shows "P (fold f xs s)"
  using assms by (induction xs arbitrary: s) simp_all

lemma put_codes:
  assumes "\<forall>p. cells g p = 0 \<or> cells g p = 1 \<or> cells g p = 2" and "v = 0 \<or> v = 1 \<or> v = 2"
  shows "\<forall>p. cells (put g q v) p = 0 \<or> cells (put g q v) p = 1 \<or> cells (put g q v) p = 2"
proof
  fix p
  show "cells (put g q v) p = 0 \<or> cells (put g q v) p = 1 \<or> cells (put g q v) p = 2"
    using assms(1)[rule_format, of p] assms(2) by (cases "p = q") (simp_all add: put_def)
qed

lemma init_cell_codes:
  assumes "\<forall>p. cells (fst s) p = 0 \<or> cells (fst s) p = 1 \<or> cells (fst s) p = 2"
  shows "\<forall>p. cells (fst (init_cell fe fa i j s)) p = 0 \<or> cells (fst (init_cell fe fa i j s)) p = 1
           \<or> cells (fst (init_cell fe fa i j s)) p = 2"
proof -
  obtain g ec r where s: "s = (g, ec, r)" by (cases s)
  obtain u r1 where u: "rand r = (u, r1)" by (cases "rand r")
  obtain v r2 where v: "rand r1 = (v, r2)" by (cases "rand r1")
  have "fst (init_cell fe fa i j s) = put g (i, j) 0 \<or> fst (init_cell fe fa i j s) = put g (i, j) 1
      \<or> fst (init_cell fe fa i j s) = put g (i, j) 2"
    by (simp add: init_cell_def s u v)
  moreover have "\<forall>p. cells g p = 0 \<or> cells g p = 1 \<or> cells g p = 2"
    using assms s by simp
  ultimately show ?thesis using put_codes[of g _ "(i, j)"] by (elim disjE) simp_all
qed

lemma initialize_grid_codes:
  "\<forall>p. cells (fst (initialize_grid sz fe fa r)) p = 0 \<or> cells (fst (initialize_grid sz fe fa r)) p = 1
         \<or> cells (fst (initialize_grid sz fe fa r)) p = 2"
  unfolding initialize_grid_def
proof (rule fold_invariant[where P = "\<lambda>s. \<forall>p. cells (fst s) p = 0 \<or> cells (fst s) p = 1 \<or> cells (fst s) p = 2"])
  show "\<forall>p. cells (fst (zeros sz sz, [], r)) p = 0 \<or> cells (fst (zeros sz sz, [], r)) p = 1
          \<or> cells (fst (zeros sz sz, [], r)) p = 2"
    by (simp add: zeros_def)
next
  fix i and s :: "grid \<times> (nat \<times> nat) list \<times> rng"
  assume "\<forall>p. cells (fst s) p = 0 \<or> cells (fst s) p = 1 \<or> cells (fst s) p = 2"
  then show "\<forall>p. cells (fst (fold (init_cell fe fa i) [0..<sz] s)) p = 0
               \<or> cells (fst (fold (init_cell fe fa i) [0..<sz] s)) p = 1
               \<or> cells (fst (fold (init_cell fe fa i) [0..<sz] s)) p = 2"
    by (rule fold_invariant[where P = "\<lambda>s. \<forall>p. cells (fst s) p = 0 \<or> cells (fst s) p = 1 \<or> cells (fst s) p = 2", rotated])
      (rule init_cell_codes)
qed

lemma update_iter_codes:
  assumes "consistent g e" and "update_iter g e sz thr wm r = Inr (g', e', wm', r')"
    and "\<forall>p. cells g p = 0 \<or> cells g p = 1 \<or> cells g p = 2"
  shows "\<forall>p. cells g' p = 0 \<or> cells g' p = 1 \<or> cells g' p = 2"
proof -
  from update_iter_cases[OF assms(2)]
  consider "g' = g" |
    x y r2 k r3 where "randint_pair sz r = Inr (x, y, r2)" "is_satisfied x y g thr = Inr False"
      "randint (length e) r2 = Inr (k, r3)"
    by blast
  then show ?thesis
  proof cases
    case 1
    then show ?thesis using assms(3) by simp
  next
    case 2
    from update_iter_move[OF assms(1) 2, of wm] assms(2)
    have "g' = put (put g (e ! k) (cells g (x, y))) (x, y) 0" by simp
    moreover have "\<forall>p. cells (put g (e ! k) (cells g (x, y))) p = 0
        \<or> cells (put g (e ! k) (cells g (x, y))) p = 1 \<or> cells (put g (e ! k) (cells g (x, y))) p = 2"
      using assms(3) by (intro put_codes) simp_all
    ultimately show ?thesis by (simp add: put_codes)
  qed
qed

lemma update_loop_codes:
  assumes "consistent g e" and "update_loop n g e sz thr wm r = Inr (g', e', wm', r')"
    and "\<forall>p. cells g p = 0 \<or> cells g p = 1 \<or> cells g p = 2"
  shows "\<forall>p. cells g' p = 0 \<or> cells g' p = 1 \<or> cells g' p = 2"
  using assms
proof (induction n arbitrary: g e wm r)
  case 0
  then show ?case by simp
next
  case (Suc n)
  show ?case
  proof (cases "update_iter g e sz thr wm r")
    case (Inl err)
    with Suc.prems(2) show ?thesis by simp
  next
    case (Inr t)
    obtain g1 e1 wm1 r1 where t: "t = (g1, e1, wm1, r1)" by (cases t)
    note i = Inr[unfolded t]
    from update_iter_consistent[OF Suc.prems(1) i] have c: "consistent g1 e1" .
    from update_iter_codes[OF Suc.prems(1) i Suc.prems(3)]
    have v: "\<forall>p. cells g1 p = 0 \<or> cells g1 p = 1 \<or> cells g1 p = 2" .
    from Suc.prems(2) Inr t
    have "update_loop n g1 e1 sz thr wm1 r1 = Inr (g', e', wm', r')" by simp
    from Suc.IH[OF c this v] show ?thesis .
  qed
qed

lemma reachable_codes:
  "reachable g e \<Longrightarrow> \<forall>p. cells g p = 0 \<or> cells g p = 1 \<or> cells g p = 2"
proof (induction rule: reachable.induct)
  case (init sz fe fa r g e r')
  from initialize_grid_codes[of sz fe fa r] init show ?case by simp
next
  case (step g e sz thr n r g' e' wm r')
  from step(2) have u: "update_loop n g e sz thr False r = Inr (g', e', wm, r')"
    by (simp add: update_def)
  from update_loop_codes[OF reachable_consistent[OF step(1)] u step(3)] show ?case .
qed

lemma reachable_valid: "reachable g e \<Longrightarrow> valid_grid g"
  using reachable_codes[of g e] unfolding valid_grid_def list_all_iff by blast

subsection \<open>The run at work\<close>

lemma upt2: "[0..<2] = [0, 1]"
  by (simp add: numeral_2_eq_2)

lemma demo_init:
  "initialize_grid 2 (1 / 4) (1 / 2) demo_rng = (demo_grid, [(1, 0)], demo_rng\<lparr>pos := 7\<rparr>)"
  by (simp add: initialize_grid_def upt2 init_cell_def rand_def advance_def zeros_def put_def
      demo_rng_def replay_def demo_grid_def)

lemma demo_reachable: "reachable demo_grid [(1, 0)]"
  using demo_init by (rule reachable.init)

lemma coords_demo: "coords demo_grid = [(0, 0), (0, 1), (1, 0), (1, 1)]"
  by (simp add: coords_def demo_grid_def upt2)

subsection \<open>The small grids at work\<close>

lemma upt3: "[0..<3] = [0, 1, 2]"
  by (simp add: numeral_3_eq_3)

lemma shape_of_rows: "shape0 (of_rows n m rows) = n" "shape1 (of_rows n m rows) = m"
  by (simp_all add: of_rows_def)

lemma coords_3: "coords (of_rows 3 3 rows) = [(0,0),(0,1),(0,2),(1,0),(1,1),(1,2),(2,0),(2,1),(2,2)]"
  by (simp add: coords_def shape_of_rows upt3)

lemma valid_mixed: "valid_grid mixed_grid"
  unfolding valid_grid_def mixed_grid_def coords_3 by (simp add: of_rows_def)

lemma valid_lonely: "valid_grid lonely_grid"
  unfolding valid_grid_def lonely_grid_def coords_3 by (simp add: of_rows_def)

lemma neighbors_3_corner:
  "moore_neighbors (of_rows 3 3 rows) 0 0 = [(2,2),(2,0),(2,1),(0,2),(0,1),(1,2),(1,0),(1,1)]"
  by (simp add: moore_neighbors_def moore_offsets_def shape_of_rows)

lemma neighbors_3_centre:
  "moore_neighbors (of_rows 3 3 rows) 1 1 = [(0,0),(0,1),(0,2),(1,0),(1,2),(2,0),(2,1),(2,2)]"
  by (simp add: moore_neighbors_def moore_offsets_def shape_of_rows)

lemma mixed_counts: "spec_same mixed_grid 0 0 = 2" "spec_total mixed_grid 0 0 = 5"
  unfolding spec_same_def spec_total_def mixed_grid_def neighbors_3_corner
  by (simp_all add: of_rows_def)

lemma spec_total_zero_iff:
  "spec_total g x y = 0 \<longleftrightarrow> (\<forall>p \<in> set (moore_neighbors g x y). cells g p = 0)"
  by (simp add: spec_total_def filter_empty_conv)

lemma lonely_neighbors_empty:
  "\<forall>p \<in> set (moore_neighbors lonely_grid 1 1). cells lonely_grid p = 0"
  unfolding lonely_grid_def neighbors_3_centre by (simp add: of_rows_def)

lemma mixed_corner: "fraction_neighbors_same 0 0 mixed_grid = Inr (Some (2 / 5))"
proof -
  have r: "0 < shape0 mixed_grid" "0 < shape1 mixed_grid"
    by (simp_all add: mixed_grid_def shape_of_rows)
  have "cells mixed_grid (0, 0) \<noteq> 0" by (simp add: mixed_grid_def of_rows_def)
  then show ?thesis
    using fns_valid[OF valid_mixed r] by (simp add: mixed_counts)
qed

subsection \<open>A relocation\<close>

lemma filter_fun_upd_notin:
  assumes "p \<notin> set xs"
  shows "filter (\<lambda>s. (f(p := v)) s = c) xs = filter (\<lambda>s. f s = c) xs"
  using assms by (intro filter_cong) auto

lemma count_fun_upd:
  assumes "distinct xs" and "p \<in> set xs"
  shows "int (length (filter (\<lambda>s. (f(p := v)) s = c) xs))
       = int (length (filter (\<lambda>s. f s = c) xs))
         - (if f p = c then 1 else 0) + (if v = c then 1 else 0)"
proof -
  from split_list[OF assms(2)] obtain ys zs where xs: "xs = ys @ p # zs" by blast
  with assms(1) have n: "p \<notin> set ys" "p \<notin> set zs" by simp_all
  have "filter (\<lambda>s. (f(p := v)) s = c) xs
      = filter (\<lambda>s. f s = c) ys @ (if v = c then [p] else []) @ filter (\<lambda>s. f s = c) zs"
    unfolding xs
    by (simp add: filter_fun_upd_notin[OF n(1)] filter_fun_upd_notin[OF n(2)] fun_upd_same
        del: fun_upd_apply)
  moreover have "filter (\<lambda>s. f s = c) xs
      = filter (\<lambda>s. f s = c) ys @ (if f p = c then [p] else []) @ filter (\<lambda>s. f s = c) zs"
    unfolding xs by simp
  ultimately show ?thesis by simp
qed

lemma coords_put: "coords (put g p v) = coords g"
  by (simp add: coords_def put_def)

lemma count_cells_put:
  assumes "p \<in> set (coords g)"
  shows "int (count_cells (put g p v) c)
       = int (count_cells g c) - (if cells g p = c then 1 else 0) + (if v = c then 1 else 0)"
proof -
  have "cells (put g p v) = (cells g)(p := v)" by (simp add: put_def)
  then show ?thesis
    using count_fun_upd[OF distinct_coords assms, of "cells g" v c]
    by (simp add: count_cells_def coords_put)
qed

lemma relocate_counts:
  assumes "q \<in> set (coords g)" and "p \<in> set (coords g)" and "cells g q = 0" and "p \<noteq> q"
  shows "count_cells (put (put g q (cells g p)) p 0) c = count_cells g c"
proof -
  let ?g1 = "put g q (cells g p)"
  have p1: "p \<in> set (coords ?g1)" using assms(2) by (simp add: coords_put)
  have c1: "cells ?g1 p = cells g p" using assms(4) by (simp add: put_def)
  have "int (count_cells (put ?g1 p 0) c) = int (count_cells g c)"
    unfolding count_cells_put[OF p1] count_cells_put[OF assms(1)] c1 assms(3) by simp
  then show ?thesis by simp
qed

lemma count_agents_eq: "count_agents g + count_cells g 0 = length (coords g)"
  unfolding count_agents_def count_cells_def
  using sum_length_filter_compl[of "\<lambda>p. cells g p = 0" "coords g"] by simp

lemma demo_consistent: "consistent demo_grid [(1, 0)]"
  using demo_reachable by (rule reachable_consistent)

lemma demo_pair: "randint_pair 2 (demo_rng\<lparr>pos := 7\<rparr>) = Inr (0, 0, demo_rng\<lparr>pos := 9\<rparr>)"
  by (simp add: randint_pair_def randint_def advance_def demo_rng_def replay_def)

lemma demo_index: "randint (length [(1, 0) :: nat \<times> nat]) (demo_rng\<lparr>pos := 9\<rparr>) = Inr (0, demo_rng\<lparr>pos := 10\<rparr>)"
  by (simp add: randint_def advance_def demo_rng_def replay_def)

lemma demo_unsatisfied: "is_satisfied 0 0 demo_grid (1 / 2) = Inr False"
  by (simp add: is_satisfied_def fraction_neighbors_same_def getitem_def directions_def
      look_def wrap_def demo_grid_def)

lemma demo_move:
  "update_iter demo_grid [(1, 0)] 2 (1 / 2) False (demo_rng\<lparr>pos := 7\<rparr>)
     = Inr (moved_grid, [(0, 0)], True, demo_rng\<lparr>pos := 10\<rparr>)"
  using update_iter_move[OF demo_consistent demo_pair demo_unsatisfied demo_index, of False]
  by (simp add: moved_grid_def) (simp add: demo_grid_def)

lemma demo_update:
  "update demo_grid [(1, 0)] 2 (1 / 2) 1 (demo_rng\<lparr>pos := 7\<rparr>)
     = Inr (moved_grid, [(0, 0)], True, demo_rng\<lparr>pos := 10\<rparr>)"
  using demo_move by (simp add: update_def)

lemma moved_reachable: "reachable moved_grid [(0, 0)]"
  using demo_reachable demo_update by (rule reachable.step)

subsection \<open>Threshold zero\<close>

lemma randint_pair_pos:
  assumes "0 < sz"
  shows "randint_pair sz r
       = Inr (raw r (pos r) mod sz, raw r (Suc (pos r)) mod sz, r\<lparr>pos := pos r + 2\<rparr>)"
  using assms by (simp add: randint_pair_def randint_def advance_def)

lemma is_satisfied_zero:
  assumes "x < shape0 g" and "y < shape1 g"
  shows "is_satisfied x y g 0 = Inr True"
proof -
  from fns_cases[OF assms]
  consider "fraction_neighbors_same x y g = Inr None"
    | f where "fraction_neighbors_same x y g = Inr (Some f)" "0 \<le> f"
    by blast
  then show ?thesis
    by cases (simp_all add: is_satisfied_def)
qed

lemma update_iter_zero:
  assumes "0 < sz" and "sz \<le> shape0 g" and "sz \<le> shape1 g"
  shows "update_iter g e sz 0 wm r = Inr (g, e, wm, r\<lparr>pos := pos r + 2\<rparr>)"
proof -
  let ?x = "raw r (pos r) mod sz" and ?y = "raw r (Suc (pos r)) mod sz"
  have "?x < sz" "?y < sz" using assms(1) by simp_all
  with assms(2,3) have "?x < shape0 g" "?y < shape1 g" by linarith+
  then have "is_satisfied ?x ?y g 0 = Inr True" by (rule is_satisfied_zero)
  with randint_pair_pos[OF assms(1), of r] show ?thesis
    by (rule update_iter_satisfied)
qed

lemma update_loop_zero:
  assumes "0 < sz" and "sz \<le> shape0 g" and "sz \<le> shape1 g"
  shows "update_loop n g e sz 0 wm r = Inr (g, e, wm, r\<lparr>pos := pos r + 2 * n\<rparr>)"
proof (induction n arbitrary: r)
  case 0
  show ?case by simp
next
  case (Suc n)
  show ?case
    by (simp add: update_iter_zero[OF assms] Suc.IH)
qed

lemma update_zero:
  assumes "0 < sz" and "sz \<le> shape0 g" and "sz \<le> shape1 g"
  shows "update g e sz 0 n r = Inr (g, e, False, r\<lparr>pos := pos r + 2 * n\<rparr>)"
  unfolding update_def by (rule update_loop_zero[OF assms])

subsection \<open>No empty cell left\<close>

lemma update_iter_empty_index:
  assumes "randint_pair sz r = Inr (x, y, r2)" and "is_satisfied x y g thr = Inr False"
  shows "update_iter g [] sz thr wm r = Inl ValueError"
  using assms by (simp add: update_iter_def randint_def)

lemma update_iter_empty_index_returns:
  assumes "update_iter g [] sz thr wm r = Inr (g', e', wm', r')"
  shows "g' = g \<and> e' = [] \<and> wm' = wm"
proof -
  from update_iter_cases[OF assms]
  consider "g' = g \<and> e' = [] \<and> wm' = wm"
    | r2 k r3 where "randint (length ([] :: (nat \<times> nat) list)) r2 = Inr (k, r3)"
    by blast
  then show ?thesis
    by cases (simp_all add: randint_def)
qed

lemma update_loop_empty_index_returns:
  assumes "update_loop n g [] sz thr wm r = Inr (g', e', wm', r')"
  shows "g' = g \<and> e' = [] \<and> wm' = wm"
  using assms
proof (induction n arbitrary: r)
  case 0
  then show ?case by simp
next
  case (Suc n)
  show ?case
  proof (cases "update_iter g [] sz thr wm r")
    case (Inl err)
    with Suc.prems show ?thesis by simp
  next
    case (Inr t)
    obtain g1 e1 wm1 r1 where t: "t = (g1, e1, wm1, r1)" by (cases t)
    from update_iter_empty_index_returns[OF Inr[unfolded t]]
    have "g1 = g" "e1 = []" "wm1 = wm" by simp_all
    with Suc.prems Inr t have "update_loop n g [] sz thr wm r1 = Inr (g', e', wm', r')"
      by simp
    then show ?thesis by (rule Suc.IH)
  qed
qed

lemma full_pair: "randint_pair 2 (replay []) = Inr (0, 0, replay []\<lparr>pos := 2\<rparr>)"
  by (simp add: randint_pair_def randint_def advance_def replay_def)

lemma full_unsatisfied: "is_satisfied 0 0 full_grid (1 / 2) = Inr False"
  by (simp add: is_satisfied_def fraction_neighbors_same_def getitem_def directions_def
      look_def wrap_def full_grid_def of_rows_def)

lemma full_no_empty: "count_cells full_grid 0 = 0"
  by (simp add: count_cells_def coords_def full_grid_def of_rows_def upt2)

subsection \<open>The average\<close>

lemma collect_step:
  assumes "i < shape0 g" and "j < shape1 g"
  shows "collect g i j (Inr l)
       = Inr (l @ map (similarity_at g) (filter (is_defined g) [(i, j)]))"
proof -
  from fns_cases[OF assms]
  consider "fraction_neighbors_same i j g = Inr None"
    | f where "fraction_neighbors_same i j g = Inr (Some f)"
    by blast
  then show ?thesis
    by cases (simp_all add: collect_def is_defined_def similarity_at_def)
qed

lemma collect_row:
  assumes "i < shape0 g" and "\<forall>j \<in> set js. j < shape1 g"
  shows "fold (\<lambda>j. collect g i j) js (Inr l)
       = Inr (l @ map (similarity_at g) (filter (is_defined g) (map (Pair i) js)))"
  using assms(2)
proof (induction js arbitrary: l)
  case Nil
  show ?case by simp
next
  case (Cons j js)
  from Cons.prems have j: "j < shape1 g" and js: "\<forall>j \<in> set js. j < shape1 g" by simp_all
  show ?case
    by (simp add: collect_step[OF assms(1) j] Cons.IH[OF js])
qed

lemma collect_rows:
  assumes "\<forall>i \<in> set is. i < shape0 g" and "\<forall>j \<in> set js. j < shape1 g"
  shows "fold (\<lambda>i. fold (\<lambda>j. collect g i j) js) is (Inr l)
       = Inr (l @ map (similarity_at g) (filter (is_defined g) (List.product is js)))"
  using assms(1)
proof (induction "is" arbitrary: l)
  case Nil
  show ?case by simp
next
  case (Cons i "is")
  from Cons.prems have i: "i < shape0 g" and r: "\<forall>i \<in> set is. i < shape0 g" by simp_all
  show ?case
    by (simp add: collect_row[OF i assms(2)] Cons.IH[OF r])
qed

lemma average_eq:
  "average_neighbor_similarity g
     = Inr (mean (map (similarity_at g) (filter (is_defined g) (coords g))))"
proof -
  have "fold (\<lambda>i. fold (\<lambda>j. collect g i j) [0..<shape1 g]) [0..<shape0 g] (Inr [])
      = Inr ([] @ map (similarity_at g) (filter (is_defined g) (List.product [0..<shape0 g] [0..<shape1 g])))"
    by (rule collect_rows) simp_all
  then show ?thesis by (simp add: average_neighbor_similarity_def coords_def)
qed

lemma defined_at_filter: "defined_at g = set (filter (is_defined g) (coords g))"
  by (auto simp: defined_at_def)

lemma demo_fractions:
  "fraction_neighbors_same 0 0 demo_grid = Inr (Some 0)"
  "fraction_neighbors_same 0 (Suc 0) demo_grid = Inr (Some (1 / 2))"
  "fraction_neighbors_same (Suc 0) 0 demo_grid = Inr None"
  "fraction_neighbors_same (Suc 0) (Suc 0) demo_grid = Inr (Some (1 / 3))"
  by (simp_all add: fraction_neighbors_same_def getitem_def directions_def
      look_def wrap_def demo_grid_def)

lemma demo_average: "average_neighbor_similarity demo_grid = Inr (Val (5 / 18))"
  unfolding average_eq coords_demo
  by (simp add: is_defined_def similarity_at_def demo_fractions mean_def)

section \<open>The properties\<close>

text \<open>
  C1. In every state of a run, that is after \<^verbatim>\<open>initialize_grid\<close> and after every
  returning call of \<^verbatim>\<open>update\<close>, the list of empty cells has as many entries as the
  grid has empty cells, it lists every empty coordinate exactly once (it has no
  duplicates), and it lists no occupied cell.
\<close>

theorem empty_index_consistent:
  assumes "reachable g emptycells"
  shows "length emptycells = count_cells g 0
       \<and> distinct emptycells
       \<and> set emptycells = empty_coords g
       \<and> (\<forall>p. p \<in> set emptycells \<longleftrightarrow> fst p < shape0 g \<and> snd p < shape1 g \<and> cells g p = 0)"
proof -
  from reachable_consistent[OF assms] have c: "consistent g emptycells" .
  then have "distinct emptycells" "set emptycells = empty_coords g"
    by (simp_all add: consistent_def)
  moreover from c have "length emptycells = count_cells g 0" by (rule consistent_length)
  ultimately show ?thesis by (simp add: empty_coords_iff)
qed

theorem empty_index_consistent_witness:
  "reachable demo_grid [(1, 0)]
   \<and> length [(1, 0) :: nat \<times> nat] = count_cells demo_grid 0
   \<and> count_cells demo_grid 0 = 1
   \<and> set [(1, 0)] = empty_coords demo_grid
   \<and> reachable moved_grid [(0, 0)]
   \<and> set [(0, 0)] = empty_coords moved_grid"
proof -
  have "count_cells demo_grid 0 = 1"
    by (simp add: count_cells_def coords_demo) (simp add: demo_grid_def)
  then show ?thesis
    using empty_index_consistent[OF demo_reachable] empty_index_consistent[OF moved_reachable]
      demo_reachable moved_reachable
    by simp
qed

text \<open>
  C2. On a grid whose cells hold the three codes, at a coordinate within the shape that
  holds an agent with at least one neighbour that is not empty,
  \<^verbatim>\<open>fraction_neighbors_same\<close> returns \<open>same / total\<close>: the neighbours are the
  eight offsets wrapped modulo the shape, \<open>total\<close> counts those that are not empty and
  \<open>same\<close> those among them with the agent's code. Every cell, at an edge or a corner
  too, has eight examined neighbours, all within the shape, and the result lies between
  0 and 1.
\<close>

theorem fraction_neighbors_same_value:
  assumes "valid_grid g" and "x < shape0 g" and "y < shape1 g"
    and "cells g (x, y) \<noteq> 0" and "\<exists>p \<in> set (moore_neighbors g x y). cells g p \<noteq> 0"
  shows "fraction_neighbors_same x y g
           = Inr (Some (real (spec_same g x y) / real (spec_total g x y)))
       \<and> length (moore_neighbors g x y) = 8
       \<and> set (moore_neighbors g x y) \<subseteq> set (coords g)
       \<and> spec_same g x y \<le> spec_total g x y \<and> 0 < spec_total g x y \<and> spec_total g x y \<le> 8
       \<and> 0 \<le> real (spec_same g x y) / real (spec_total g x y)
       \<and> real (spec_same g x y) / real (spec_total g x y) \<le> 1"
proof -
  have len: "length (moore_neighbors g x y) = 8"
    by (simp add: moore_neighbors_nbr directions_def)
  have "filter (\<lambda>p. cells g p \<noteq> 0) (moore_neighbors g x y) \<noteq> []"
    using assms(5) by (simp add: filter_empty_conv)
  then have pos: "0 < spec_total g x y" by (simp add: spec_total_def)
  have "spec_total g x y \<le> length (moore_neighbors g x y)"
    unfolding spec_total_def by (rule length_filter_le)
  with len have le8: "spec_total g x y \<le> 8" by simp
  have sub: "set (moore_neighbors g x y) \<subseteq> set (coords g)"
    using moore_neighbors_in_range[OF assms(2,3)] by blast
  have v: "fraction_neighbors_same x y g
           = Inr (Some (real (spec_same g x y) / real (spec_total g x y)))"
    using fns_valid[OF assms(1,2,3)] assms(4) pos by simp
  have "real (spec_same g x y) / real (spec_total g x y) \<le> 1"
    using spec_same_le[of g x y] pos by (simp add: divide_le_eq)
  with v len sub pos le8 spec_same_le[of g x y] show ?thesis by simp
qed

theorem fraction_neighbors_same_value_witness:
  "valid_grid mixed_grid \<and> cells mixed_grid (0, 0) = 1
   \<and> cells mixed_grid (0, 1) \<noteq> 0 \<and> (0, 1) \<in> set (moore_neighbors mixed_grid 0 0)
   \<and> fraction_neighbors_same 0 0 mixed_grid = Inr (Some (2 / 5))
   \<and> length (moore_neighbors mixed_grid 0 0) = 8"
proof -
  have r: "0 < shape0 mixed_grid" "0 < shape1 mixed_grid"
    by (simp_all add: mixed_grid_def shape_of_rows)
  have c: "cells mixed_grid (0, 0) = 1" "cells mixed_grid (0, 1) \<noteq> 0"
    by (simp_all add: mixed_grid_def of_rows_def)
  have m: "(0, 1) \<in> set (moore_neighbors mixed_grid 0 0)"
    by (simp add: mixed_grid_def neighbors_3_corner)
  have nz: "cells mixed_grid (0, 0) \<noteq> 0" using c by simp
  have ex: "\<exists>p \<in> set (moore_neighbors mixed_grid 0 0). cells mixed_grid p \<noteq> 0"
    using m c(2) by blast
  from fraction_neighbors_same_value[OF valid_mixed r nz ex] valid_mixed c m
  show ?thesis by (simp add: mixed_counts)
qed

text \<open>
  C3. On a grid whose cells hold the three codes, at a coordinate within the shape,
  \<^verbatim>\<open>fraction_neighbors_same\<close> returns the undefined result (\<^verbatim>\<open>None\<close>) exactly
  when the cell is empty or all eight neighbours are empty; otherwise it returns a
  fraction between 0 and 1. The undefined result differs from every fraction, from 0 in
  particular.
\<close>

theorem fraction_neighbors_same_undefined:
  assumes "valid_grid g" and "x < shape0 g" and "y < shape1 g"
  shows "(fraction_neighbors_same x y g = Inr None
            \<longleftrightarrow> cells g (x, y) = 0 \<or> (\<forall>p \<in> set (moore_neighbors g x y). cells g p = 0))
       \<and> (fraction_neighbors_same x y g \<noteq> Inr None
            \<longrightarrow> (\<exists>f. fraction_neighbors_same x y g = Inr (Some f) \<and> 0 \<le> f \<and> f \<le> 1))
       \<and> (\<forall>f. (Inr None :: error + real option) \<noteq> Inr (Some f))"
proof -
  have "fraction_neighbors_same x y g = Inr None
            \<longleftrightarrow> cells g (x, y) = 0 \<or> spec_total g x y = 0"
    by (simp add: fns_valid[OF assms])
  then have 1: "fraction_neighbors_same x y g = Inr None
            \<longleftrightarrow> cells g (x, y) = 0 \<or> (\<forall>p \<in> set (moore_neighbors g x y). cells g p = 0)"
    by (simp add: spec_total_zero_iff)
  have 2: "fraction_neighbors_same x y g \<noteq> Inr None
            \<longrightarrow> (\<exists>f. fraction_neighbors_same x y g = Inr (Some f) \<and> 0 \<le> f \<and> f \<le> 1)"
    using fns_cases[OF assms(2,3)] by blast
  from 1 2 show ?thesis by simp
qed

theorem fraction_neighbors_same_undefined_witness:
  "valid_grid lonely_grid \<and> cells lonely_grid (1, 1) = 1
   \<and> fraction_neighbors_same 1 1 lonely_grid = Inr None
   \<and> fraction_neighbors_same 0 0 lonely_grid = Inr None"
proof -
  have r: "0 < shape0 lonely_grid" "0 < shape1 lonely_grid"
    "1 < shape0 lonely_grid" "1 < shape1 lonely_grid"
    by (simp_all add: lonely_grid_def shape_of_rows)
  have c: "cells lonely_grid (1, 1) = 1" "cells lonely_grid (0, 0) = 0"
    by (simp_all add: lonely_grid_def of_rows_def)
  from fraction_neighbors_same_undefined[OF valid_lonely r(3,4)]
    fraction_neighbors_same_undefined[OF valid_lonely r(1,2)]
    lonely_neighbors_empty c valid_lonely
  show ?thesis by simp
qed

text \<open>
  C4. At a coordinate within the shape, \<^verbatim>\<open>is_satisfied\<close> returns true if and only
  if \<^verbatim>\<open>fraction_neighbors_same\<close> is undefined or is a fraction greater than or equal
  to the threshold, and false otherwise; a fraction equal to the threshold satisfies.
\<close>

theorem is_satisfied_iff:
  assumes "x < shape0 g" and "y < shape1 g"
  shows "is_satisfied x y g similarity_threshold
           = Inr (fraction_neighbors_same x y g = Inr None
                  \<or> (\<exists>f. fraction_neighbors_same x y g = Inr (Some f) \<and> f \<ge> similarity_threshold))"
proof -
  from fns_cases[OF assms]
  consider "fraction_neighbors_same x y g = Inr None"
    | f where "fraction_neighbors_same x y g = Inr (Some f)"
    by blast
  then show ?thesis
  proof cases
    case 1
    then show ?thesis by (simp add: is_satisfied_def)
  next
    case 2
    then show ?thesis by (simp add: is_satisfied_def)
  qed
qed

theorem is_satisfied_iff_witness:
  "is_satisfied 0 0 mixed_grid (2 / 5) = Inr True
   \<and> is_satisfied 0 0 mixed_grid (1 / 2) = Inr False
   \<and> is_satisfied 1 1 lonely_grid 1 = Inr True"
proof -
  have r: "0 < shape0 mixed_grid" "0 < shape1 mixed_grid"
    "1 < shape0 lonely_grid" "1 < shape1 lonely_grid"
    by (simp_all add: mixed_grid_def lonely_grid_def shape_of_rows)
  have l: "fraction_neighbors_same 1 1 lonely_grid = Inr None"
    using fns_valid[OF valid_lonely r(3,4)] lonely_neighbors_empty
    by (simp add: spec_total_zero_iff)
  have 1: "is_satisfied 0 0 mixed_grid (2 / 5) = Inr True"
    unfolding is_satisfied_iff[OF r(1,2)] mixed_corner by (auto intro!: exI[of _ "2 / 5"])
  have 2: "is_satisfied 0 0 mixed_grid (1 / 2) = Inr False"
    unfolding is_satisfied_iff[OF r(1,2)] mixed_corner by auto
  have 3: "is_satisfied 1 1 lonely_grid 1 = Inr True"
    unfolding is_satisfied_iff[OF r(3,4)] l by simp
  from 1 2 3 show ?thesis by simp
qed

text \<open>
  C5. A relocation inside \<^verbatim>\<open>update\<close>: the list of empty cells agrees with the grid,
  the sampled cell \<open>(x, y)\<close> is not satisfied and \<open>randindex\<close> is the index drawn into
  the list. Then the pass of the loop returns, the vacated cell \<open>(x, y)\<close> is empty, the
  destination holds the code the agent had, every other cell is as before, and the
  numbers of empty cells, of A cells and of B cells are unchanged.
\<close>

theorem relocation_conserves:
  assumes "consistent g emptycells" and "randint_pair sz r = Inr (x, y, r2)"
    and "is_satisfied x y g similarity_threshold = Inr False"
    and "randint (length emptycells) r2 = Inr (randindex, r3)"
  shows "\<exists>g'. update_iter g emptycells sz similarity_threshold was_move r
                = Inr (g', emptycells[randindex := (x, y)], True, r3)
       \<and> shape0 g' = shape0 g \<and> shape1 g' = shape1 g
       \<and> cells g' (x, y) = 0
       \<and> cells g' (emptycells ! randindex) = cells g (x, y)
       \<and> (\<forall>p. p \<noteq> (x, y) \<and> p \<noteq> emptycells ! randindex \<longrightarrow> cells g' p = cells g p)
       \<and> count_cells g' 0 = count_cells g 0
       \<and> count_cells g' 1 = count_cells g 1
       \<and> count_cells g' 2 = count_cells g 2"
proof -
  note m = update_iter_move_facts[OF assms(1,3,4)]
  let ?q = "emptycells ! randindex"
  let ?g = "put (put g ?q (cells g (x, y))) (x, y) 0"
  have u: "update_iter g emptycells sz similarity_threshold was_move r
             = Inr (?g, emptycells[randindex := (x, y)], True, r3)"
    by (rule update_iter_move[OF assms])
  have q: "?q \<in> set (coords g)" using m(5,6) by (simp add: set_coords)
  have p: "(x, y) \<in> set (coords g)" using m(1,2) by (simp add: set_coords)
  have ne: "(x, y) \<noteq> ?q" using m(8) by simp
  have cnt: "count_cells ?g c = count_cells g c" for c
    by (rule relocate_counts[OF q p m(7) ne])
  have sh: "shape0 ?g = shape0 g" "shape1 ?g = shape1 g" by (simp_all add: put_def)
  have src: "cells ?g (x, y) = 0" by (simp add: put_def)
  have dst: "cells ?g ?q = cells g (x, y)" using m(8) by (simp add: put_def)
  have oth: "\<forall>p. p \<noteq> (x, y) \<and> p \<noteq> ?q \<longrightarrow> cells ?g p = cells g p" by (simp add: put_def)
  from u sh src dst oth cnt[of 0] cnt[of 1] cnt[of 2] show ?thesis by blast
qed

theorem relocation_conserves_witness:
  "consistent demo_grid [(1, 0)]
   \<and> is_satisfied 0 0 demo_grid (1 / 2) = Inr False
   \<and> update_iter demo_grid [(1, 0)] 2 (1 / 2) False (demo_rng\<lparr>pos := 7\<rparr>)
       = Inr (moved_grid, [(0, 0)], True, demo_rng\<lparr>pos := 10\<rparr>)
   \<and> cells moved_grid (0, 0) = 0 \<and> cells moved_grid (1, 0) = 1
   \<and> count_cells moved_grid 0 = count_cells demo_grid 0
   \<and> count_cells moved_grid 1 = count_cells demo_grid 1
   \<and> count_cells moved_grid 2 = count_cells demo_grid 2"
proof -
  have c: "cells demo_grid (0, 0) = 1" by (simp add: demo_grid_def)
  from relocation_conserves[OF demo_consistent demo_pair demo_unsatisfied demo_index, of False]
  obtain g' where u: "update_iter demo_grid [(1, 0)] 2 (1 / 2) False (demo_rng\<lparr>pos := 7\<rparr>)
       = Inr (g', [(0, 0)], True, demo_rng\<lparr>pos := 10\<rparr>)"
    and p: "cells g' (0, 0) = 0" "cells g' (1, 0) = cells demo_grid (0, 0)"
      "count_cells g' 0 = count_cells demo_grid 0"
      "count_cells g' 1 = count_cells demo_grid 1"
      "count_cells g' 2 = count_cells demo_grid 2"
    by auto
  from u have "g' = moved_grid" unfolding demo_move by simp
  with p c demo_consistent demo_unsatisfied demo_move show ?thesis by simp
qed

text \<open>
  C6, as the claim states it, fails: on a grid without an empty cell and with the empty
  list, a call of \<^verbatim>\<open>update\<close> that samples an unsatisfied cell raises ValueError, from
  \<^verbatim>\<open>np.random.randint(0)\<close>.
\<close>

theorem update_empty_index_counterexample:
  "count_cells full_grid 0 = 0
   \<and> randint_pair 2 (replay []) = Inr (0, 0, replay []\<lparr>pos := 2\<rparr>)
   \<and> is_satisfied 0 0 full_grid (1 / 2) = Inr False
   \<and> update full_grid [] 2 (1 / 2) 1 (replay []) = Inl ValueError"
proof -
  have "update_iter full_grid [] 2 (1 / 2) False (replay []) = Inl ValueError"
    using full_pair full_unsatisfied by (rule update_iter_empty_index)
  then have "update full_grid [] 2 (1 / 2) 1 (replay []) = Inl ValueError"
    by (simp add: update_def)
  with full_no_empty full_pair full_unsatisfied show ?thesis by simp
qed

text \<open>
  C6, amended. With the empty list of empty cells, a pass of the loop of \<^verbatim>\<open>update\<close>
  whose sampled cell is not satisfied raises ValueError: the draw of an index into the
  list is not guarded. No move occurs: a call of \<^verbatim>\<open>update\<close> that returns leaves the
  grid and the list unchanged and returns the flag false.
\<close>

theorem update_empty_index_raises:
  "(randint_pair sz r = Inr (x, y, r2) \<and> is_satisfied x y g similarity_threshold = Inr False
      \<longrightarrow> update_iter g [] sz similarity_threshold was_move r = Inl ValueError
        \<and> update g [] sz similarity_threshold (Suc n) r = Inl ValueError)
   \<and> (update g [] sz similarity_threshold agents_per_step r = Inr (g', emptycells', moved, r')
      \<longrightarrow> g' = g \<and> emptycells' = [] \<and> \<not> moved)"
proof -
  have "update_iter g [] sz similarity_threshold wm r = Inl ValueError"
    if "randint_pair sz r = Inr (x, y, r2)" "is_satisfied x y g similarity_threshold = Inr False"
    for wm
    using that by (rule update_iter_empty_index)
  then have 1: "randint_pair sz r = Inr (x, y, r2) \<and> is_satisfied x y g similarity_threshold = Inr False
      \<longrightarrow> update_iter g [] sz similarity_threshold was_move r = Inl ValueError
        \<and> update g [] sz similarity_threshold (Suc n) r = Inl ValueError"
    by (simp add: update_def)
  have 2: "update g [] sz similarity_threshold agents_per_step r = Inr (g', emptycells', moved, r')
      \<longrightarrow> g' = g \<and> emptycells' = [] \<and> \<not> moved"
    unfolding update_def using update_loop_empty_index_returns by blast
  from 1 2 show ?thesis by (rule conjI)
qed

theorem update_empty_index_raises_witness:
  "randint_pair 2 (replay []) = Inr (0, 0, replay []\<lparr>pos := 2\<rparr>)
   \<and> is_satisfied 0 0 full_grid (1 / 2) = Inr False
   \<and> update_iter full_grid [] 2 (1 / 2) False (replay []) = Inl ValueError
   \<and> update full_grid [] 2 (1 / 2) (Suc 4) (replay []) = Inl ValueError
   \<and> update full_grid [] 2 (1 / 2) 0 (replay []) = Inr (full_grid, [], False, replay [])"
proof -
  have u: "update full_grid [] 2 (1 / 2) 0 (replay []) = Inr (full_grid, [], False, replay [])"
    by (simp add: update_def)
  from update_empty_index_raises[where sz = 2 and r = "replay []" and x = 0 and y = 0
      and ?r2.0 = "replay []\<lparr>pos := 2\<rparr>" and g = full_grid and similarity_threshold = "1 / 2"
      and was_move = False and n = 4 and agents_per_step = 0 and g' = full_grid
      and emptycells' = "[]" and moved = False and r' = "replay []"]
    full_pair full_unsatisfied u
  show ?thesis by simp
qed

text \<open>
  C7. On a grid with at least one coordinate where the similarity is defined,
  \<^verbatim>\<open>average_neighbor_similarity\<close> returns the arithmetic mean of
  \<^verbatim>\<open>fraction_neighbors_same\<close> over the coordinates of the grid where it is defined: the
  undefined results enter neither the sum nor the count.
\<close>

theorem average_is_mean:
  assumes "defined_at g \<noteq> {}"
  shows "average_neighbor_similarity g = Inr (Val (spec_mean g))"
proof -
  let ?ps = "filter (is_defined g) (coords g)"
  have d: "distinct ?ps" by (simp add: distinct_coords)
  have "set ?ps \<noteq> {}" using assms unfolding defined_at_filter .
  then have ne: "?ps \<noteq> []" by (metis set_empty)
  have s: "sum_list (map (similarity_at g) ?ps) = sum (similarity_at g) (defined_at g)"
    unfolding defined_at_filter using d by (rule sum_list_distinct_conv_sum_set)
  have c: "length ?ps = card (defined_at g)"
    unfolding defined_at_filter using distinct_card[OF d] by (rule sym)
  from ne have "mean (map (similarity_at g) ?ps)
      = Val (sum_list (map (similarity_at g) ?ps) / real (length ?ps))"
    by (simp add: mean_def)
  then show ?thesis by (simp add: average_eq s c spec_mean_def)
qed

theorem average_is_mean_witness:
  "(0, 1) \<in> defined_at demo_grid
   \<and> average_neighbor_similarity demo_grid = Inr (Val (5 / 18))
   \<and> spec_mean demo_grid = 5 / 18"
proof -
  have d: "(0, 1) \<in> defined_at demo_grid"
    by (simp add: defined_at_def coords_demo is_defined_def demo_fractions)
  then have "defined_at demo_grid \<noteq> {}" by blast
  from average_is_mean[OF this] d show ?thesis by (simp add: demo_average)
qed

text \<open>
  C8. On a grid where \<^verbatim>\<open>fraction_neighbors_same\<close> is undefined at every coordinate, an
  entirely empty grid in particular, \<^verbatim>\<open>average_neighbor_similarity\<close> returns
  not-a-number, the value of \<^verbatim>\<open>np.mean\<close> on the empty list: it raises no exception.
\<close>

theorem average_undefined_is_nan:
  "((\<forall>p \<in> set (coords g). fraction_neighbors_same (fst p) (snd p) g = Inr None)
      \<longrightarrow> average_neighbor_similarity g = Inr NaN)
   \<and> ((\<forall>p \<in> set (coords g). cells g p = 0) \<longrightarrow> average_neighbor_similarity g = Inr NaN)"
proof -
  have 1: "average_neighbor_similarity g = Inr NaN"
    if a: "\<forall>p \<in> set (coords g). fraction_neighbors_same (fst p) (snd p) g = Inr None"
  proof -
    have "\<forall>p \<in> set (coords g). \<not> is_defined g p" using a by (simp add: is_defined_def)
    then have "filter (is_defined g) (coords g) = []" by (simp add: filter_empty_conv)
    then show ?thesis by (simp add: average_eq mean_def)
  qed
  have "\<forall>p \<in> set (coords g). fraction_neighbors_same (fst p) (snd p) g = Inr None"
    if e: "\<forall>p \<in> set (coords g). cells g p = 0"
  proof
    fix p assume p: "p \<in> set (coords g)"
    then have r: "fst p < shape0 g" "snd p < shape1 g" by (simp_all add: set_coords)
    from e p have "cells g (fst p, snd p) = 0" by simp
    then show "fraction_neighbors_same (fst p) (snd p) g = Inr None"
      by (simp add: fns_unfold[OF r])
  qed
  with 1 show ?thesis by blast
qed

theorem average_undefined_is_nan_witness:
  "average_neighbor_similarity (zeros 2 2) = Inr NaN
   \<and> fraction_neighbors_same 1 1 lonely_grid = Inr None
   \<and> average_neighbor_similarity lonely_grid = Inr NaN"
proof -
  have z: "\<forall>p \<in> set (coords (zeros 2 2)). cells (zeros 2 2) p = 0"
    by (simp add: zeros_def)
  have r: "1 < shape0 lonely_grid" "1 < shape1 lonely_grid"
    by (simp_all add: lonely_grid_def shape_of_rows)
  have c: "fraction_neighbors_same 1 1 lonely_grid = Inr None"
    using fns_valid[OF valid_lonely r] lonely_neighbors_empty
    by (simp add: spec_total_zero_iff)
  have l: "\<forall>p \<in> set (coords lonely_grid). fraction_neighbors_same (fst p) (snd p) lonely_grid = Inr None"
  proof
    fix p assume p: "p \<in> set (coords lonely_grid)"
    then have q: "fst p < shape0 lonely_grid" "snd p < shape1 lonely_grid"
      by (simp_all add: set_coords)
    show "fraction_neighbors_same (fst p) (snd p) lonely_grid = Inr None"
    proof (cases "p = (1, 1)")
      case True
      with c show ?thesis by simp
    next
      case False
      with q have "cells lonely_grid (fst p, snd p) = 0"
        by (cases p) (auto simp: lonely_grid_def of_rows_def nth_Cons' less_Suc_eq numeral_3_eq_3)
      then show ?thesis by (simp add: fns_unfold[OF q])
    qed
  qed
  from average_undefined_is_nan[of "zeros 2 2"] average_undefined_is_nan[of lonely_grid] z l c
  show ?thesis by blast
qed

text \<open>
  C9. With the similarity threshold 0, on a grid at least as large as the positive size
  passed to \<^verbatim>\<open>update\<close>, every call of every sequence of calls returns, with the
  flag false and with the grid and the list of empty cells unchanged, whatever the
  random source draws (each pass of the loop only consumes two draws).
\<close>

theorem threshold_zero_never_moves:
  assumes "0 < sz" and "sz \<le> shape0 g" and "sz \<le> shape1 g"
  shows "update_seq g emptycells sz 0 ns r
       = Inr (g, emptycells, replicate (length ns) False, r\<lparr>pos := pos r + 2 * sum_list ns\<rparr>)"
proof (induction ns arbitrary: r)
  case Nil
  show ?case by simp
next
  case (Cons n ns)
  show ?case
    by (simp add: update_zero[OF assms] Cons.IH algebra_simps)
qed

theorem threshold_zero_never_moves_witness:
  "update_seq demo_grid [(1, 0)] 2 0 [3, 1] demo_rng
     = Inr (demo_grid, [(1, 0)], [False, False], demo_rng\<lparr>pos := 8\<rparr>)"
proof -
  have s: "(0::nat) < 2" "2 \<le> shape0 demo_grid" "2 \<le> shape1 demo_grid"
    by (simp_all add: demo_grid_def)
  have "pos demo_rng = 0" by (simp add: demo_rng_def replay_def)
  with threshold_zero_never_moves[OF s, of "[(1, 0)]" "[3, 1]" demo_rng]
  show ?thesis by simp
qed

text \<open>
  C10. In every state of a run, whenever a pass of the loop of \<^verbatim>\<open>update\<close> relocates
  an agent (it turns the flag from false to true), the sampled cell holds an agent, the
  destination drawn from the list of empty cells is an empty cell and differs from the
  sampled cell, so the two stores of the tuple assignment go to different cells; after
  the move the destination holds the agent and the grid has as many agents as before.
\<close>

theorem relocation_keeps_agents:
  assumes "reachable g emptycells"
    and "update_iter g emptycells sz similarity_threshold False r = Inr (g', emptycells', True, r')"
  shows "\<exists>x y r2 randindex.
           randint_pair sz r = Inr (x, y, r2)
         \<and> randint (length emptycells) r2 = Inr (randindex, r')
         \<and> cells g (x, y) \<noteq> 0
         \<and> randindex < length emptycells
         \<and> cells g (emptycells ! randindex) = 0
         \<and> emptycells ! randindex \<noteq> (x, y)
         \<and> emptycells' = emptycells[randindex := (x, y)]
         \<and> cells g' (emptycells ! randindex) = cells g (x, y)
         \<and> cells g' (x, y) = 0
         \<and> count_agents g' = count_agents g"
proof -
  from reachable_consistent[OF assms(1)] have c: "consistent g emptycells" .
  from update_iter_cases[OF assms(2)]
  obtain x y r2 k r3 where d: "randint_pair sz r = Inr (x, y, r2)"
    "is_satisfied x y g similarity_threshold = Inr False"
    "randint (length emptycells) r2 = Inr (k, r3)"
    by auto
  note m = update_iter_move_facts[OF c d(2,3)]
  let ?q = "emptycells ! k"
  from update_iter_move[OF c d, of False] assms(2)
  have g': "r' = r3" "emptycells' = emptycells[k := (x, y)]"
    "g' = put (put g ?q (cells g (x, y))) (x, y) 0"
    by simp_all
  have q: "?q \<in> set (coords g)" using m(5,6) by (simp add: set_coords)
  have p: "(x, y) \<in> set (coords g)" using m(1,2) by (simp add: set_coords)
  have ne: "(x, y) \<noteq> ?q" using m(8) by simp
  have e0: "count_cells g' 0 = count_cells g 0"
    unfolding g'(3) by (rule relocate_counts[OF q p m(7) ne])
  have src: "cells g' (x, y) = 0" by (simp add: g'(3) put_def)
  have dst: "cells g' ?q = cells g (x, y)" using m(8) by (simp add: g'(3) put_def)
  have "coords g' = coords g" by (simp add: g'(3) coords_put)
  then have "count_agents g' = count_agents g"
    using count_agents_eq[of g'] count_agents_eq[of g] e0 by simp
  with d(1,3) m(3,4,7,8) g'(1,2) src dst show ?thesis by blast
qed

theorem relocation_keeps_agents_witness:
  "reachable demo_grid [(1, 0)]
   \<and> update_iter demo_grid [(1, 0)] 2 (1 / 2) False (demo_rng\<lparr>pos := 7\<rparr>)
       = Inr (moved_grid, [(0, 0)], True, demo_rng\<lparr>pos := 10\<rparr>)
   \<and> cells demo_grid (0, 0) = 1
   \<and> count_agents moved_grid = count_agents demo_grid"
proof -
  have c: "cells demo_grid (0, 0) = 1" by (simp add: demo_grid_def)
  from relocation_keeps_agents[OF demo_reachable demo_move]
  have "count_agents moved_grid = count_agents demo_grid" by blast
  with demo_reachable demo_move c show ?thesis by simp
qed

end
